theory Spec2Isabelle
  imports Complex_Main
begin

section \<open>Values of the empty interface\<close>

text \<open>
  The elements of a set are Go values of type \<open>interface{}\<close>. What the package observes
  of such a value is its \<open>reflect.Kind\<close>, whether it can be a map key, and its equality
  with other keys. \<open>Kind\<close> lists the constants of \<open>reflect.Kind\<close>; \<open>reflect.Int\<close>
  is \<open>IntK\<close>, since \<open>Int\<close> is HOL's intersection.
\<close>

datatype Kind =
    Invalid | Bool | IntK | Int8 | Int16 | Int32 | Int64
  | Uint | Uint8 | Uint16 | Uint32 | Uint64 | Uintptr
  | Float32 | Float64 | Complex64 | Complex128
  | Array | Chan | Func | Interface | Map | Pointer | Slice | String | Struct
  | UnsafePointer

text \<open>
  A floating-point number, as \<open>==\<close> sees it: not a number, an infinity (true for the
  positive one) or a finite number. Positive and negative zero are equal for \<open>==\<close> and
  are one key of a map; they are one value here.
\<close>

datatype float = NaN | Infinite bool | Finite rat

text \<open>
  The dynamic values: the nil interface, booleans, integers, floating-point and complex
  numbers of both sizes, strings, pointers (an address), structs (the name of the struct
  type and the field values), slices (the elements), maps and functions (an identity).
  The other integer kinds behave as \<open>int\<close>, channels and unsafe pointers as pointers and
  arrays as structs. Slices, maps and functions cannot be hashed, and a struct can be
  hashed when all of its fields can.
\<close>

datatype val =
    NilV
  | BoolV bool
  | IntV int
  | Float32V float
  | Float64V float
  | Complex64V float float
  | Complex128V float float
  | StringV string
  | PointerV nat
  | StructV string "val list"
  | SliceV "val list"
  | MapV nat
  | FuncV nat

text \<open>\<open>reflect.TypeOf(item).Kind()\<close>: \<open>TypeOf\<close> of the nil interface is a nil
  \<open>Type\<close>, on which the call of \<open>Kind\<close> panics (\<open>None\<close>).\<close>

fun kind_of :: "val \<Rightarrow> Kind option" where
  "kind_of NilV = None"
| "kind_of (BoolV b) = Some Bool"
| "kind_of (IntV i) = Some IntK"
| "kind_of (Float32V x) = Some Float32"
| "kind_of (Float64V x) = Some Float64"
| "kind_of (Complex64V x y) = Some Complex64"
| "kind_of (Complex128V x y) = Some Complex128"
| "kind_of (StringV s) = Some String"
| "kind_of (PointerV a) = Some Pointer"
| "kind_of (StructV n fs) = Some Struct"
| "kind_of (SliceV xs) = Some Slice"
| "kind_of (MapV a) = Some Map"
| "kind_of (FuncV a) = Some Func"

fun hashable :: "val \<Rightarrow> bool" where
  "hashable (SliceV xs) = False"
| "hashable (MapV a) = False"
| "hashable (FuncV a) = False"
| "hashable (StructV n fs) = list_all hashable fs"
| "hashable v = True"

text \<open>
  Two keys of a map are the same key when they are equal for \<open>==\<close>: their dynamic types
  are identical and their values equal. That is equality of \<open>val\<close>, but for the values
  that \<open>==\<close> does not find equal to themselves: a NaN, a complex number with a NaN part,
  and a struct with such a field. A key of that sort is never found again: a store adds
  an entry each time, a lookup fails and a delete removes nothing.
\<close>

fun self_equal :: "val \<Rightarrow> bool" where
  "self_equal (Float32V x) = (x \<noteq> NaN)"
| "self_equal (Float64V x) = (x \<noteq> NaN)"
| "self_equal (Complex64V x y) = (x \<noteq> NaN \<and> y \<noteq> NaN)"
| "self_equal (Complex128V x y) = (x \<noteq> NaN \<and> y \<noteq> NaN)"
| "self_equal (StructV n fs) = list_all self_equal fs"
| "self_equal v = True"

definition same_key :: "val \<Rightarrow> val \<Rightarrow> bool" where
  "same_key a b = (a = b \<and> self_equal a)"

section \<open>The Set structure\<close>

text \<open>
  \<open>type Set struct { m map[interface{}]struct{}; l sync.RWMutex; kind reflect.Kind }\<close>.
  The values of the map carry nothing, so the map is the list of its entries' keys, in
  the order in which \<open>range\<close> visits them. That order is not specified by Go: the
  theorems speak of \<open>set (List s)\<close>, of sizes, booleans and errors only, for every list
  of keys.
  The lock \<open>l\<close> is held for the length of one call and has no effect on a sequential
  run; it is not part of the state.
\<close>

record Set =
  m :: "val list"
  kind :: Kind

text \<open>The two errors the package builds with \<open>fmt.Errorf\<close>, each carrying the two
  kinds its message prints: \<open>tried to insert value of kind k into a set of kind k'\<close> and
  \<open>cannot perform the requested operation on mismatched sets; k != k'\<close>.\<close>

datatype error = TypeViolation Kind Kind | KindMismatch Kind Kind

text \<open>Run-time panics: a method called through a nil pointer or a nil \<open>Type\<close>, and
  an unhashable key given to a map operation.\<close>

datatype panic = NilDereference | UnhashableKey

subsection \<open>The map operations\<close>

definition map_store :: "val list \<Rightarrow> val \<Rightarrow> panic + val list" where
  "map_store keys k =
     (if hashable k then Inr (if list_ex (\<lambda>k'. same_key k' k) keys then keys else keys @ [k])
      else Inl UnhashableKey)"

definition map_delete :: "val list \<Rightarrow> val \<Rightarrow> panic + val list" where
  "map_delete keys k =
     (if hashable k then Inr (filter (\<lambda>k'. \<not> same_key k' k) keys) else Inl UnhashableKey)"

definition map_lookup :: "val list \<Rightarrow> val \<Rightarrow> panic + bool" where
  "map_lookup keys k =
     (if hashable k then Inr (list_ex (\<lambda>k'. same_key k' k) keys) else Inl UnhashableKey)"

subsection \<open>typematch and typecheck\<close>

definition typematch :: "Set \<Rightarrow> Set \<Rightarrow> error option" where
  "typematch s t =
     (if kind s \<noteq> kind t then Some (KindMismatch (kind s) (kind t)) else None)"

fun typecheck :: "Set \<Rightarrow> val list \<Rightarrow> panic + error option" where
  "typecheck s [] = Inr None"
| "typecheck s (item # items) =
     (case kind_of item of
        None \<Rightarrow> Inl NilDereference
      | Some k \<Rightarrow>
          if k \<noteq> kind s then Inr (Some (TypeViolation k (kind s)))
          else typecheck s items)"

subsection \<open>Add, Remove, Has\<close>

text \<open>
  \<open>Add\<close>, \<open>Remove\<close> and \<open>Has\<close> call \<open>s.typecheck(items)\<close>, not
  \<open>s.typecheck(items...)\<close>: the variadic parameter of \<open>typecheck\<close> is then the
  one-element list holding the slice \<open>items\<close> itself.
\<close>

fun Add_loop :: "val list \<Rightarrow> val list \<Rightarrow> panic + val list" where
  "Add_loop keys [] = Inr keys"
| "Add_loop keys (item # items) =
     (case map_store keys item of
        Inl p \<Rightarrow> Inl p
      | Inr keys' \<Rightarrow> Add_loop keys' items)"

definition Add :: "Set \<Rightarrow> val list \<Rightarrow> panic + (Set \<times> error option)" where
  "Add s items =
     (if length items = 0 then Inr (s, None)
      else case typecheck s [SliceV items] of
        Inl p \<Rightarrow> Inl p
      | Inr (Some err) \<Rightarrow> Inr (s, Some err)
      | Inr None \<Rightarrow>
          (case Add_loop (m s) items of
             Inl p \<Rightarrow> Inl p
           | Inr keys \<Rightarrow> Inr (s\<lparr>m := keys\<rparr>, None)))"

fun Remove_loop :: "val list \<Rightarrow> val list \<Rightarrow> panic + val list" where
  "Remove_loop keys [] = Inr keys"
| "Remove_loop keys (item # items) =
     (case map_delete keys item of
        Inl p \<Rightarrow> Inl p
      | Inr keys' \<Rightarrow> Remove_loop keys' items)"

definition Remove :: "Set \<Rightarrow> val list \<Rightarrow> panic + (Set \<times> error option)" where
  "Remove s items =
     (if length items = 0 then Inr (s, None)
      else case typecheck s [SliceV items] of
        Inl p \<Rightarrow> Inl p
      | Inr (Some err) \<Rightarrow> Inr (s, Some err)
      | Inr None \<Rightarrow>
          (case Remove_loop (m s) items of
             Inl p \<Rightarrow> Inl p
           | Inr keys \<Rightarrow> Inr (s\<lparr>m := keys\<rparr>, None)))"

fun Has_loop :: "val list \<Rightarrow> val list \<Rightarrow> panic + bool" where
  "Has_loop keys [] = Inr True"
| "Has_loop keys (item # items) =
     (case map_lookup keys item of
        Inl p \<Rightarrow> Inl p
      | Inr ok \<Rightarrow> if \<not> ok then Inr False else Has_loop keys items)"

definition Has :: "Set \<Rightarrow> val list \<Rightarrow> panic + (bool \<times> error option)" where
  "Has s items =
     (if length items = 0 then Inr (False, None)
      else case typecheck s [SliceV items] of
        Inl p \<Rightarrow> Inl p
      | Inr (Some err) \<Rightarrow> Inr (False, Some err)
      | Inr None \<Rightarrow>
          (case Has_loop (m s) items of
             Inl p \<Rightarrow> Inl p
           | Inr b \<Rightarrow> Inr (b, None)))"

subsection \<open>New, Size, Clear, IsEmpty, List, Copy\<close>

text \<open>\<open>New\<close> drops the error of \<open>s.Add(items...)\<close>; a panic of \<open>Add\<close> is a panic of
  \<open>New\<close>.\<close>

definition New :: "Kind \<Rightarrow> val list \<Rightarrow> panic + Set" where
  "New k items =
     (case Add \<lparr>m = [], kind = k\<rparr> items of
        Inl p \<Rightarrow> Inl p
      | Inr (s, _) \<Rightarrow> Inr s)"

definition Size :: "Set \<Rightarrow> nat" where
  "Size s = length (m s)"

definition Clear :: "Set \<Rightarrow> Set" where
  "Clear s = s\<lparr>m := []\<rparr>"

definition IsEmpty :: "Set \<Rightarrow> bool" where
  "IsEmpty s = (Size s = 0)"

definition List :: "Set \<Rightarrow> val list" where
  "List s = m s"

definition Copy :: "Set \<Rightarrow> panic + Set" where
  "Copy s = New (kind s) (List s)"

subsection \<open>The binary operations\<close>

text \<open>The loops \<open>for _, item := range xs { u.Add(item) }\<close> and
  \<open>{ s.Remove(item) }\<close>, which drop the returned error.\<close>

fun Add_each :: "Set \<Rightarrow> val list \<Rightarrow> panic + Set" where
  "Add_each u [] = Inr u"
| "Add_each u (item # items) =
     (case Add u [item] of
        Inl p \<Rightarrow> Inl p
      | Inr (u', _) \<Rightarrow> Add_each u' items)"

fun Remove_each :: "Set \<Rightarrow> val list \<Rightarrow> panic + Set" where
  "Remove_each u [] = Inr u"
| "Remove_each u (item # items) =
     (case Remove u [item] of
        Inl p \<Rightarrow> Inl p
      | Inr (u', _) \<Rightarrow> Remove_each u' items)"

text \<open>A result \<open>(*Set, error)\<close> is a pair of options: \<open>None\<close> is \<open>nil\<close>.\<close>

definition Union_Set :: "Set \<Rightarrow> Set \<Rightarrow> panic + (Set option \<times> error option)" where
  "Union_Set s t =
     (case typematch s t of
        Some err \<Rightarrow> Inr (None, Some err)
      | None \<Rightarrow>
          (case New (kind s) (List t) of
             Inl p \<Rightarrow> Inl p
           | Inr u \<Rightarrow>
               (case Add_each u (List s) of
                  Inl p \<Rightarrow> Inl p
                | Inr u' \<Rightarrow> Inr (Some u', None))))"

definition Merge :: "Set \<Rightarrow> Set \<Rightarrow> panic + (Set \<times> error option)" where
  "Merge s t =
     (case typematch s t of
        Some err \<Rightarrow> Inr (s, Some err)
      | None \<Rightarrow>
          (case Add_each s (List t) of
             Inl p \<Rightarrow> Inl p
           | Inr s' \<Rightarrow> Inr (s', None)))"

definition Separate :: "Set \<Rightarrow> Set \<Rightarrow> panic + (Set \<times> error option)" where
  "Separate s t =
     (case typematch s t of
        Some err \<Rightarrow> Inr (s, Some err)
      | None \<Rightarrow>
          (case Remove_each s (List t) of
             Inl p \<Rightarrow> Inl p
           | Inr s' \<Rightarrow> Inr (s', None)))"

text \<open>\<open>for _, item := range xs { if ok, _ := t.Has(item); ok { u.Add(item) } }\<close>\<close>

fun Intersection_loop :: "Set \<Rightarrow> Set \<Rightarrow> val list \<Rightarrow> panic + Set" where
  "Intersection_loop t u [] = Inr u"
| "Intersection_loop t u (item # items) =
     (case Has t [item] of
        Inl p \<Rightarrow> Inl p
      | Inr (ok, _) \<Rightarrow>
          if ok then
            (case Add u [item] of
               Inl p \<Rightarrow> Inl p
             | Inr (u', _) \<Rightarrow> Intersection_loop t u' items)
          else Intersection_loop t u items)"

definition Intersection :: "Set \<Rightarrow> Set \<Rightarrow> panic + (Set option \<times> error option)" where
  "Intersection s t =
     (case typematch s t of
        Some err \<Rightarrow> Inr (None, Some err)
      | None \<Rightarrow>
          (case New (kind s) [] of
             Inl p \<Rightarrow> Inl p
           | Inr u \<Rightarrow>
               (case Intersection_loop t u (List s) of
                  Inl p \<Rightarrow> Inl p
                | Inr u' \<Rightarrow>
                    (case Intersection_loop s u' (List t) of
                       Inl p \<Rightarrow> Inl p
                     | Inr u'' \<Rightarrow> Inr (Some u'', None)))))"

text \<open>\<open>for _, item := range xs { if ok, _ := t.Has(item); !ok { u.Add(item) } }\<close>\<close>

fun Difference_loop :: "Set \<Rightarrow> Set \<Rightarrow> val list \<Rightarrow> panic + Set" where
  "Difference_loop t u [] = Inr u"
| "Difference_loop t u (item # items) =
     (case Has t [item] of
        Inl p \<Rightarrow> Inl p
      | Inr (ok, _) \<Rightarrow>
          if \<not> ok then
            (case Add u [item] of
               Inl p \<Rightarrow> Inl p
             | Inr (u', _) \<Rightarrow> Difference_loop t u' items)
          else Difference_loop t u items)"

definition Difference :: "Set \<Rightarrow> Set \<Rightarrow> panic + (Set option \<times> error option)" where
  "Difference s t =
     (case typematch s t of
        Some err \<Rightarrow> Inr (None, Some err)
      | None \<Rightarrow>
          (case New (kind s) [] of
             Inl p \<Rightarrow> Inl p
           | Inr u \<Rightarrow>
               (case Difference_loop t u (List s) of
                  Inl p \<Rightarrow> Inl p
                | Inr u' \<Rightarrow> Inr (Some u', None))))"

text \<open>\<open>u, _ := s.Difference(t); v, _ := t.Difference(s); res, _ := u.Union(v)\<close>:
  a method called on a nil \<open>*Set\<close> panics when it reads a field.\<close>

definition SymmetricDifference :: "Set \<Rightarrow> Set \<Rightarrow> panic + (Set option \<times> error option)" where
  "SymmetricDifference s t =
     (case typematch s t of
        Some err \<Rightarrow> Inr (None, Some err)
      | None \<Rightarrow>
          (case Difference s t of
             Inl p \<Rightarrow> Inl p
           | Inr (u, _) \<Rightarrow>
               (case Difference t s of
                  Inl p \<Rightarrow> Inl p
                | Inr (v, _) \<Rightarrow>
                    (case (u, v) of
                       (Some u', Some v') \<Rightarrow>
                         (case Union_Set u' v' of
                            Inl p \<Rightarrow> Inl p
                          | Inr (res, _) \<Rightarrow> Inr (res, None))
                     | _ \<Rightarrow> Inl NilDereference))))"

text \<open>\<open>if u, _ := s.Union(t); s.Size() != u.Size()\<close>\<close>

definition IsEqual :: "Set \<Rightarrow> Set \<Rightarrow> panic + (bool \<times> error option)" where
  "IsEqual s t =
     (case typematch s t of
        Some err \<Rightarrow> Inr (False, Some err)
      | None \<Rightarrow>
          if Size s \<noteq> Size t then Inr (False, None)
          else
            (case Union_Set s t of
               Inl p \<Rightarrow> Inl p
             | Inr (None, _) \<Rightarrow> Inl NilDereference
             | Inr (Some u, _) \<Rightarrow>
                 if Size s \<noteq> Size u then Inr (False, None) else Inr (True, None)))"

text \<open>\<open>for _, item := range t.List() { if ok, _ := s.Has(item); !ok { return false, nil } }\<close>\<close>

fun IsSubset_loop :: "Set \<Rightarrow> val list \<Rightarrow> panic + bool" where
  "IsSubset_loop s [] = Inr True"
| "IsSubset_loop s (item # items) =
     (case Has s [item] of
        Inl p \<Rightarrow> Inl p
      | Inr (ok, _) \<Rightarrow> if \<not> ok then Inr False else IsSubset_loop s items)"

definition IsSubset :: "Set \<Rightarrow> Set \<Rightarrow> panic + (bool \<times> error option)" where
  "IsSubset s t =
     (case typematch s t of
        Some err \<Rightarrow> Inr (False, Some err)
      | None \<Rightarrow>
          (case IsSubset_loop s (List t) of
             Inl p \<Rightarrow> Inl p
           | Inr b \<Rightarrow> Inr (b, None)))"

definition IsSuperset :: "Set \<Rightarrow> Set \<Rightarrow> panic + (bool \<times> error option)" where
  "IsSuperset s t = IsSubset t s"

section \<open>The invariant of a set\<close>

text \<open>
  The field \<open>m\<close> is not exported: a set is made by \<open>New\<close> (or by an operation that
  calls it) and changed by the methods only. Every such set satisfies \<open>wf\<close>: its keys
  are hashable, those equal to themselves are distinct (they are the keys of a Go map),
  and it is empty unless its kind is \<open>Slice\<close>, the only kind for which the call of
  \<open>typecheck\<close> in \<open>Add\<close> succeeds.
\<close>

definition wf :: "Set \<Rightarrow> bool" where
  "wf s = (distinct (filter self_equal (m s)) \<and> list_all hashable (m s) \<and>
           (kind s = Slice \<or> m s = []))"

section \<open>The symmetric difference as the specification words it\<close>

text \<open>The union of the difference of \<open>s\<close> and \<open>t\<close> with the difference of \<open>t\<close> and
  \<open>s\<close>, each step passing its error on.\<close>

definition SymmetricDifference_spec ::
    "Set \<Rightarrow> Set \<Rightarrow> panic + (Set option \<times> error option)" where
  "SymmetricDifference_spec s t =
     (case Difference s t of
        Inl p \<Rightarrow> Inl p
      | Inr (None, err) \<Rightarrow> Inr (None, err)
      | Inr (Some u, _) \<Rightarrow>
          (case Difference t s of
             Inl p \<Rightarrow> Inl p
           | Inr (None, err) \<Rightarrow> Inr (None, err)
           | Inr (Some v, _) \<Rightarrow> Union_Set u v))"

section \<open>Sets behind pointers\<close>

text \<open>
  The methods have the receiver \<open>*Set\<close>, and the field \<open>m\<close> of a structure refers to a
  map. Where it matters which map a call changes, the heap holds the maps and the
  structures, each at an address: a structure is the address of its map and its kind.
  \<open>make\<close> and \<open>&Set{...}\<close> take the next free address. \<open>deref\<close> reads the structure at
  a pointer with the keys of its map; a pointer or a map address outside the heap is nil.
  A method changes the map of its receiver in place (\<open>store_keys\<close>); \<open>Clear\<close> gives the
  receiver a new map.
\<close>

record heap =
  maps :: "val list list"
  structs :: "(nat \<times> Kind) list"

definition deref :: "heap \<Rightarrow> nat \<Rightarrow> panic + Set" where
  "deref h p =
     (if p < length (structs h) \<and> fst (structs h ! p) < length (maps h)
      then Inr \<lparr>m = maps h ! fst (structs h ! p), kind = snd (structs h ! p)\<rparr>
      else Inl NilDereference)"

definition store_keys :: "heap \<Rightarrow> nat \<Rightarrow> val list \<Rightarrow> heap" where
  "store_keys h p keys = h\<lparr>maps := (maps h)[fst (structs h ! p) := keys]\<rparr>"

definition Add_ptr :: "heap \<Rightarrow> nat \<Rightarrow> val list \<Rightarrow> panic + (heap \<times> error option)" where
  "Add_ptr h p items =
     (case deref h p of
        Inl e \<Rightarrow> Inl e
      | Inr s \<Rightarrow>
          (case Add s items of
             Inl e \<Rightarrow> Inl e
           | Inr (s', err) \<Rightarrow> Inr (store_keys h p (m s'), err)))"

definition Remove_ptr :: "heap \<Rightarrow> nat \<Rightarrow> val list \<Rightarrow> panic + (heap \<times> error option)" where
  "Remove_ptr h p items =
     (case deref h p of
        Inl e \<Rightarrow> Inl e
      | Inr s \<Rightarrow>
          (case Remove s items of
             Inl e \<Rightarrow> Inl e
           | Inr (s', err) \<Rightarrow> Inr (store_keys h p (m s'), err)))"

text \<open>\<open>s.m = make(map[interface{}]struct{})\<close>\<close>

definition Clear_ptr :: "heap \<Rightarrow> nat \<Rightarrow> panic + heap" where
  "Clear_ptr h p =
     (case deref h p of
        Inl e \<Rightarrow> Inl e
      | Inr s \<Rightarrow>
          Inr (h\<lparr>maps := maps h @ [[]],
                 structs := (structs h)[p := (length (maps h), kind s)]\<rparr>))"

text \<open>\<open>s := &Set{kind: kind, m: make(map[interface{}]struct{})}; s.Add(items...);
  return s\<close>\<close>

definition New_ptr :: "heap \<Rightarrow> Kind \<Rightarrow> val list \<Rightarrow> panic + (heap \<times> nat)" where
  "New_ptr h k items =
     (case Add_ptr (h\<lparr>maps := maps h @ [[]], structs := structs h @ [(length (maps h), k)]\<rparr>)
             (length (structs h)) items of
        Inl e \<Rightarrow> Inl e
      | Inr (h', _) \<Rightarrow> Inr (h', length (structs h)))"

definition Copy_ptr :: "heap \<Rightarrow> nat \<Rightarrow> panic + (heap \<times> nat)" where
  "Copy_ptr h p =
     (case deref h p of
        Inl e \<Rightarrow> Inl e
      | Inr s \<Rightarrow> New_ptr h (kind s) (List s))"

text \<open>\<open>Merge\<close> and \<open>Separate\<close> read \<open>t.List()\<close> once and then change the receiver.\<close>

definition Merge_ptr :: "heap \<Rightarrow> nat \<Rightarrow> nat \<Rightarrow> panic + (heap \<times> error option)" where
  "Merge_ptr h p r =
     (case deref h p of
        Inl e \<Rightarrow> Inl e
      | Inr s \<Rightarrow>
          (case deref h r of
             Inl e \<Rightarrow> Inl e
           | Inr t \<Rightarrow>
               (case Merge s t of
                  Inl e \<Rightarrow> Inl e
                | Inr (s', err) \<Rightarrow> Inr (store_keys h p (m s'), err))))"

definition Separate_ptr :: "heap \<Rightarrow> nat \<Rightarrow> nat \<Rightarrow> panic + (heap \<times> error option)" where
  "Separate_ptr h p r =
     (case deref h p of
        Inl e \<Rightarrow> Inl e
      | Inr s \<Rightarrow>
          (case deref h r of
             Inl e \<Rightarrow> Inl e
           | Inr t \<Rightarrow>
               (case Separate s t of
                  Inl e \<Rightarrow> Inl e
                | Inr (s', err) \<Rightarrow> Inr (store_keys h p (m s'), err))))"

text \<open>The calls that change their receiver: \<open>q.Add(items...)\<close>,
  \<open>q.Remove(items...)\<close>, \<open>q.Clear()\<close>, \<open>q.Merge(r)\<close> and \<open>q.Separate(r)\<close>.\<close>

datatype mutation =
    AddItems "val list"
  | RemoveItems "val list"
  | ClearAll
  | MergeWith nat
  | SeparateFrom nat

fun mutate :: "heap \<Rightarrow> nat \<Rightarrow> mutation \<Rightarrow> panic + heap" where
  "mutate h q (AddItems items) =
     (case Add_ptr h q items of Inl e \<Rightarrow> Inl e | Inr (h', _) \<Rightarrow> Inr h')"
| "mutate h q (RemoveItems items) =
     (case Remove_ptr h q items of Inl e \<Rightarrow> Inl e | Inr (h', _) \<Rightarrow> Inr h')"
| "mutate h q ClearAll = Clear_ptr h q"
| "mutate h q (MergeWith r) =
     (case Merge_ptr h q r of Inl e \<Rightarrow> Inl e | Inr (h', _) \<Rightarrow> Inr h')"
| "mutate h q (SeparateFrom r) =
     (case Separate_ptr h q r of Inl e \<Rightarrow> Inl e | Inr (h', _) \<Rightarrow> Inr h')"

fun mutate_all :: "heap \<Rightarrow> nat \<Rightarrow> mutation list \<Rightarrow> panic + heap" where
  "mutate_all h q [] = Inr h"
| "mutate_all h q (mu # mus) =
     (case mutate h q mu of Inl e \<Rightarrow> Inl e | Inr h' \<Rightarrow> mutate_all h' q mus)"

section \<open>Keys of a map\<close>

lemma key_found: "list_ex (\<lambda>k'. same_key k' k) keys = (k \<in> set keys \<and> self_equal k)"
  by (auto simp: list_ex_iff same_key_def)

lemma key_deleted:
  "filter (\<lambda>k'. \<not> same_key k' k) keys = (if self_equal k then removeAll k keys else keys)"
  by (induction keys) (auto simp: same_key_def)

lemma distinct_filter_removeAll:
  "distinct (filter P ks) \<Longrightarrow> distinct (filter P (removeAll x ks))"
  by (induction ks) auto

lemma map_store_hashable:
  "hashable k \<Longrightarrow>
   map_store keys k = Inr (if k \<in> set keys \<and> self_equal k then keys else keys @ [k])"
  by (simp add: map_store_def key_found)

lemma map_delete_hashable:
  "hashable k \<Longrightarrow> map_delete keys k = Inr (if self_equal k then removeAll k keys else keys)"
  by (simp add: map_delete_def key_deleted)

lemma map_lookup_hashable:
  "hashable k \<Longrightarrow> map_lookup keys k = Inr (k \<in> set keys \<and> self_equal k)"
  by (simp add: map_lookup_def key_found)

section \<open>Add, Remove and Has, by the kind of the set\<close>

lemma typecheck_slice:
  "typecheck s [SliceV items] =
     Inr (if kind s = Slice then None else Some (TypeViolation Slice (kind s)))"
  by simp

lemma Add_loop_hashable:
  "list_all hashable items \<Longrightarrow>
   \<exists>keys. Add_loop ks items = Inr keys \<and> set keys = set ks \<union> set items \<and>
     (distinct (filter self_equal ks) \<longrightarrow> distinct (filter self_equal keys)) \<and>
     (list_all hashable ks \<longrightarrow> list_all hashable keys)"
proof (induction items arbitrary: ks)
  case Nil
  then show ?case by simp
next
  case (Cons x xs)
  from Cons.prems have hx: "hashable x" and hxs: "list_all hashable xs" by simp_all
  let ?ks = "if x \<in> set ks \<and> self_equal x then ks else ks @ [x]"
  from Cons.IH [OF hxs, of ?ks] obtain keys where
    k: "Add_loop ?ks xs = Inr keys" "set keys = set ?ks \<union> set xs"
       "distinct (filter self_equal ?ks) \<longrightarrow> distinct (filter self_equal keys)"
       "list_all hashable ?ks \<longrightarrow> list_all hashable keys"
    by blast
  have "Add_loop ks (x # xs) = Inr keys" using hx k(1) by (simp add: map_store_hashable)
  moreover have "set keys = set ks \<union> set (x # xs)" using k(2) by auto
  moreover have "distinct (filter self_equal ks) \<longrightarrow> distinct (filter self_equal keys)"
    using k(3) by simp
  moreover have "list_all hashable ks \<longrightarrow> list_all hashable keys" using k(4) hx by simp
  ultimately show ?case by blast
qed

lemma Add_loop_present:
  "list_all hashable items \<Longrightarrow> list_all self_equal items \<Longrightarrow> set items \<subseteq> set ks \<Longrightarrow>
   Add_loop ks items = Inr ks"
  by (induction items) (simp_all add: map_store_hashable)

lemma Add_loop_distinct:
  "distinct (filter self_equal (ks @ xs)) \<Longrightarrow> list_all hashable xs \<Longrightarrow>
   Add_loop ks xs = Inr (ks @ xs)"
proof (induction xs arbitrary: ks)
  case Nil
  then show ?case by simp
next
  case (Cons x xs)
  from Cons.prems have d: "distinct (filter self_equal ((ks @ [x]) @ xs))"
    and hxs: "list_all hashable xs" and hx: "hashable x"
    and nx: "\<not> (x \<in> set ks \<and> self_equal x)"
    by auto
  from Cons.IH [OF d hxs] hx nx show ?case by (auto simp: map_store_hashable)
qed

lemma Remove_loop_hashable:
  "list_all hashable items \<Longrightarrow>
   \<exists>keys. Remove_loop ks items = Inr keys \<and>
     set keys = set ks - {x \<in> set items. self_equal x} \<and>
     (distinct (filter self_equal ks) \<longrightarrow> distinct (filter self_equal keys)) \<and>
     (list_all hashable ks \<longrightarrow> list_all hashable keys)"
proof (induction items arbitrary: ks)
  case Nil
  then show ?case by simp
next
  case (Cons x xs)
  from Cons.prems have hx: "hashable x" and hxs: "list_all hashable xs" by simp_all
  let ?ks = "if self_equal x then removeAll x ks else ks"
  from Cons.IH [OF hxs, of ?ks] obtain keys where
    k: "Remove_loop ?ks xs = Inr keys" "set keys = set ?ks - {y \<in> set xs. self_equal y}"
       "distinct (filter self_equal ?ks) \<longrightarrow> distinct (filter self_equal keys)"
       "list_all hashable ?ks \<longrightarrow> list_all hashable keys"
    by blast
  have "Remove_loop ks (x # xs) = Inr keys" using hx k(1) by (simp add: map_delete_hashable)
  moreover have "set keys = set ks - {y \<in> set (x # xs). self_equal y}" using k(2) by auto
  moreover have "distinct (filter self_equal ks) \<longrightarrow> distinct (filter self_equal keys)"
    using k(3) by (simp add: distinct_filter_removeAll)
  moreover have "list_all hashable ks \<longrightarrow> list_all hashable keys"
    using k(4) by (simp add: list_all_iff)
  ultimately show ?case by blast
qed

lemma Has_loop_hashable:
  "list_all hashable items \<Longrightarrow>
   Has_loop ks items = Inr (list_all (\<lambda>x. x \<in> set ks \<and> self_equal x) items)"
  by (induction items) (auto simp: map_lookup_hashable)

lemma Add_other:
  "kind s \<noteq> Slice \<Longrightarrow> items \<noteq> [] \<Longrightarrow> Add s items = Inr (s, Some (TypeViolation Slice (kind s)))"
  by (simp add: Add_def)

lemma Remove_other:
  "kind s \<noteq> Slice \<Longrightarrow> items \<noteq> [] \<Longrightarrow> Remove s items = Inr (s, Some (TypeViolation Slice (kind s)))"
  by (simp add: Remove_def)

lemma Has_other:
  "kind s \<noteq> Slice \<Longrightarrow> items \<noteq> [] \<Longrightarrow> Has s items = Inr (False, Some (TypeViolation Slice (kind s)))"
  by (simp add: Has_def)

lemma Add_Slice:
  assumes "kind s = Slice" "list_all hashable items"
  shows "\<exists>s'. Add s items = Inr (s', None) \<and> kind s' = Slice \<and>
           set (m s') = set (m s) \<union> set items \<and> (wf s \<longrightarrow> wf s')"
proof (cases "items = []")
  case True
  then show ?thesis using assms by (simp add: Add_def)
next
  case False
  from Add_loop_hashable [OF assms(2), of "m s"] obtain keys where
    k: "Add_loop (m s) items = Inr keys" "set keys = set (m s) \<union> set items"
       "distinct (filter self_equal (m s)) \<longrightarrow> distinct (filter self_equal keys)"
       "list_all hashable (m s) \<longrightarrow> list_all hashable keys"
    by blast
  have "Add s items = Inr (s\<lparr>m := keys\<rparr>, None)"
    using False assms(1) k(1) by (simp add: Add_def)
  then show ?thesis using k assms(1) by (simp add: wf_def)
qed

lemma Add_present:
  assumes "kind s = Slice" "list_all hashable items" "list_all self_equal items"
    "set items \<subseteq> set (m s)"
  shows "Add s items = Inr (s, None)"
  using assms by (cases "items = []") (simp_all add: Add_def Add_loop_present)

lemma Remove_Slice:
  assumes "kind s = Slice" "list_all hashable items"
  shows "\<exists>s'. Remove s items = Inr (s', None) \<and> kind s' = Slice \<and>
           set (m s') = set (m s) - {x \<in> set items. self_equal x} \<and> (wf s \<longrightarrow> wf s')"
proof (cases "items = []")
  case True
  then show ?thesis using assms by (simp add: Remove_def)
next
  case False
  from Remove_loop_hashable [OF assms(2), of "m s"] obtain keys where
    k: "Remove_loop (m s) items = Inr keys"
       "set keys = set (m s) - {x \<in> set items. self_equal x}"
       "distinct (filter self_equal (m s)) \<longrightarrow> distinct (filter self_equal keys)"
       "list_all hashable (m s) \<longrightarrow> list_all hashable keys"
    by blast
  have "Remove s items = Inr (s\<lparr>m := keys\<rparr>, None)"
    using False assms(1) k(1) by (simp add: Remove_def)
  then show ?thesis using k assms(1) by (simp add: wf_def)
qed

lemma Has_Slice:
  "kind s = Slice \<Longrightarrow> list_all hashable items \<Longrightarrow>
   Has s items =
     Inr (items \<noteq> [] \<and> list_all (\<lambda>x. x \<in> set (m s) \<and> self_equal x) items, None)"
  by (simp add: Has_def Has_loop_hashable)

section \<open>The operations on sets of one kind\<close>

lemma Add_each_other: "kind u \<noteq> Slice \<Longrightarrow> Add_each u xs = Inr u"
  by (induction xs) (simp_all add: Add_other)

lemma Remove_each_other: "kind u \<noteq> Slice \<Longrightarrow> Remove_each u xs = Inr u"
  by (induction xs) (simp_all add: Remove_other)

lemma Add_each_Slice:
  "kind u = Slice \<Longrightarrow> list_all hashable xs \<Longrightarrow>
   \<exists>u'. Add_each u xs = Inr u' \<and> kind u' = Slice \<and>
     set (m u') = set (m u) \<union> set xs \<and> (wf u \<longrightarrow> wf u')"
proof (induction xs arbitrary: u)
  case Nil
  then show ?case by simp
next
  case (Cons x xs)
  from Cons.prems have hx: "list_all hashable [x]" and hxs: "list_all hashable xs" by simp_all
  from Add_Slice [OF Cons.prems(1) hx] obtain u1 where
    u1: "Add u [x] = Inr (u1, None)" "kind u1 = Slice" "set (m u1) = set (m u) \<union> set [x]"
        "wf u \<longrightarrow> wf u1"
    by blast
  from Cons.IH [OF u1(2) hxs] obtain u2 where
    u2: "Add_each u1 xs = Inr u2" "kind u2 = Slice" "set (m u2) = set (m u1) \<union> set xs"
        "wf u1 \<longrightarrow> wf u2"
    by blast
  have "Add_each u (x # xs) = Inr u2" using u1(1) u2(1) by simp
  moreover have "set (m u2) = set (m u) \<union> set (x # xs)" using u1(3) u2(3) by auto
  ultimately show ?case using u2(2) u1(4) u2(4) by blast
qed

lemma Add_each_present:
  "kind u = Slice \<Longrightarrow> list_all hashable xs \<Longrightarrow> list_all self_equal xs \<Longrightarrow>
   set xs \<subseteq> set (m u) \<Longrightarrow> Add_each u xs = Inr u"
  by (induction xs) (simp_all add: Add_present)

lemma Remove_each_Slice:
  "kind u = Slice \<Longrightarrow> list_all hashable xs \<Longrightarrow>
   \<exists>u'. Remove_each u xs = Inr u' \<and> kind u' = Slice \<and>
     set (m u') = set (m u) - {x \<in> set xs. self_equal x} \<and> (wf u \<longrightarrow> wf u')"
proof (induction xs arbitrary: u)
  case Nil
  then show ?case by simp
next
  case (Cons x xs)
  from Cons.prems have hx: "list_all hashable [x]" and hxs: "list_all hashable xs" by simp_all
  from Remove_Slice [OF Cons.prems(1) hx] obtain u1 where
    u1: "Remove u [x] = Inr (u1, None)" "kind u1 = Slice"
        "set (m u1) = set (m u) - {y \<in> set [x]. self_equal y}" "wf u \<longrightarrow> wf u1"
    by blast
  from Cons.IH [OF u1(2) hxs] obtain u2 where
    u2: "Remove_each u1 xs = Inr u2" "kind u2 = Slice"
        "set (m u2) = set (m u1) - {y \<in> set xs. self_equal y}" "wf u1 \<longrightarrow> wf u2"
    by blast
  have "Remove_each u (x # xs) = Inr u2" using u1(1) u2(1) by simp
  moreover have "set (m u2) = set (m u) - {y \<in> set (x # xs). self_equal y}"
    using u1(3) u2(3) by auto
  ultimately show ?case using u2(2) u1(4) u2(4) by blast
qed

lemma New_empty: "New k [] = Inr \<lparr>m = [], kind = k\<rparr>"
  by (simp add: New_def Add_def)

lemma New_other: "k \<noteq> Slice \<Longrightarrow> New k items = Inr \<lparr>m = [], kind = k\<rparr>"
  by (cases "items = []") (simp_all add: New_def Add_def)

lemma wf_empty: "wf \<lparr>m = [], kind = k\<rparr>"
  by (simp add: wf_def)

lemma New_Slice:
  assumes "list_all hashable items"
  shows "\<exists>u. New Slice items = Inr u \<and> kind u = Slice \<and> set (m u) = set items \<and> wf u"
proof -
  from Add_Slice [of "\<lparr>m = [], kind = Slice\<rparr>" items] assms wf_empty obtain u where
    "Add \<lparr>m = [], kind = Slice\<rparr> items = Inr (u, None)" "kind u = Slice"
    "set (m u) = set items" "wf u"
    by auto
  then show ?thesis by (simp add: New_def)
qed

lemma wf_self_equal_distinct: "wf s \<Longrightarrow> list_all self_equal (m s) \<Longrightarrow> distinct (m s)"
  by (simp add: wf_def list_all_iff)

lemma Union_Set_wf:
  assumes "wf s" "wf t" "kind s = kind t"
  shows "\<exists>u. Union_Set s t = Inr (Some u, None) \<and> wf u \<and> kind u = kind s \<and>
           set (m u) = set (m s) \<union> set (m t)"
proof (cases "kind s = Slice")
  case True
  with assms have ht: "list_all hashable (m t)" and hs: "list_all hashable (m s)"
    by (simp_all add: wf_def)
  from New_Slice [OF ht] obtain u where
    u: "New Slice (m t) = Inr u" "kind u = Slice" "set (m u) = set (m t)" "wf u" by blast
  from Add_each_Slice [OF u(2) hs] u(4) obtain u' where
    u': "Add_each u (m s) = Inr u'" "kind u' = Slice" "set (m u') = set (m u) \<union> set (m s)" "wf u'"
    by blast
  have "Union_Set s t = Inr (Some u', None)"
    using assms(3) True u(1) u'(1) by (simp add: Union_Set_def typematch_def List_def)
  then show ?thesis using u' u(3) True by auto
next
  case False
  with assms have e: "m s = []" "m t = []" by (simp_all add: wf_def)
  have "Union_Set s t = Inr (Some \<lparr>m = [], kind = kind s\<rparr>, None)"
    using assms(3) False e by (simp add: Union_Set_def typematch_def List_def New_other)
  then show ?thesis using e by (simp add: wf_def)
qed

lemma Difference_loop_Slice:
  "kind t = Slice \<Longrightarrow> kind u = Slice \<Longrightarrow> list_all hashable xs \<Longrightarrow>
   \<exists>u'. Difference_loop t u xs = Inr u' \<and> kind u' = Slice \<and>
     set (m u') = set (m u) \<union> {x \<in> set xs. \<not> (x \<in> set (m t) \<and> self_equal x)} \<and>
     (wf u \<longrightarrow> wf u')"
proof (induction xs arbitrary: u)
  case Nil
  then show ?case by simp
next
  case (Cons x xs)
  from Cons.prems have hx: "list_all hashable [x]" and hxs: "list_all hashable xs" by simp_all
  have has: "Has t [x] = Inr (x \<in> set (m t) \<and> self_equal x, None)"
    using Has_Slice [OF Cons.prems(1) hx] by simp
  show ?case
  proof (cases "x \<in> set (m t) \<and> self_equal x")
    case True
    from Cons.IH [OF Cons.prems(1,2) hxs] obtain u2 where
      u2: "Difference_loop t u xs = Inr u2" "kind u2 = Slice"
          "set (m u2) = set (m u) \<union> {y \<in> set xs. \<not> (y \<in> set (m t) \<and> self_equal y)}"
          "wf u \<longrightarrow> wf u2"
      by blast
    have "Difference_loop t u (x # xs) = Inr u2" using has True u2(1) by simp
    moreover have
      "set (m u2) = set (m u) \<union> {y \<in> set (x # xs). \<not> (y \<in> set (m t) \<and> self_equal y)}"
      using u2(3) True by auto
    ultimately show ?thesis using u2(2,4) by blast
  next
    case False
    from Add_Slice [OF Cons.prems(2) hx] obtain u1 where
      u1: "Add u [x] = Inr (u1, None)" "kind u1 = Slice" "set (m u1) = set (m u) \<union> set [x]"
          "wf u \<longrightarrow> wf u1"
      by blast
    from Cons.IH [OF Cons.prems(1) u1(2) hxs] obtain u2 where
      u2: "Difference_loop t u1 xs = Inr u2" "kind u2 = Slice"
          "set (m u2) = set (m u1) \<union> {y \<in> set xs. \<not> (y \<in> set (m t) \<and> self_equal y)}"
          "wf u1 \<longrightarrow> wf u2"
      by blast
    have "Difference_loop t u (x # xs) = Inr u2" using has False u1(1) u2(1) by simp
    moreover have
      "set (m u2) = set (m u) \<union> {y \<in> set (x # xs). \<not> (y \<in> set (m t) \<and> self_equal y)}"
      using u1(3) u2(3) False by auto
    ultimately show ?thesis using u2(2) u1(4) u2(4) by blast
  qed
qed

lemma Difference_wf:
  assumes "wf s" "wf t" "kind s = kind t"
  shows "\<exists>u. Difference s t = Inr (Some u, None) \<and> wf u \<and> kind u = kind s \<and>
           set (m u) = {x \<in> set (m s). \<not> (x \<in> set (m t) \<and> self_equal x)}"
proof (cases "kind s = Slice")
  case True
  with assms have hs: "list_all hashable (m s)" and kt: "kind t = Slice"
    by (simp_all add: wf_def)
  let ?e = "\<lparr>m = [], kind = Slice\<rparr>"
  have ke: "kind ?e = Slice" by simp
  from Difference_loop_Slice [OF kt ke hs] wf_empty [of Slice] obtain u' where
    u': "Difference_loop t ?e (m s) = Inr u'" "kind u' = Slice"
        "set (m u') = {x \<in> set (m s). \<not> (x \<in> set (m t) \<and> self_equal x)}" "wf u'"
    by auto
  have "Difference s t = Inr (Some u', None)"
    using assms(3) True u'(1) by (simp add: Difference_def typematch_def List_def New_empty)
  then show ?thesis using u' True by auto
next
  case False
  with assms have e: "m s = []" by (simp add: wf_def)
  have "Difference s t = Inr (Some \<lparr>m = [], kind = kind s\<rparr>, None)"
    using assms(3) e by (simp add: Difference_def typematch_def List_def New_empty)
  then show ?thesis using e by (simp add: wf_def)
qed

lemma SymmetricDifference_wf:
  assumes "wf s" "wf t" "kind s = kind t"
  shows "\<exists>r. SymmetricDifference s t = Inr (Some r, None) \<and> wf r \<and> kind r = kind s \<and>
           set (m r) = {x \<in> set (m s). \<not> (x \<in> set (m t) \<and> self_equal x)} \<union>
                       {x \<in> set (m t). \<not> (x \<in> set (m s) \<and> self_equal x)}"
proof -
  from Difference_wf [OF assms] obtain u where
    u: "Difference s t = Inr (Some u, None)" "wf u" "kind u = kind s"
       "set (m u) = {x \<in> set (m s). \<not> (x \<in> set (m t) \<and> self_equal x)}" by blast
  from Difference_wf [OF assms(2,1)] assms(3) obtain v where
    v: "Difference t s = Inr (Some v, None)" "wf v" "kind v = kind t"
       "set (m v) = {x \<in> set (m t). \<not> (x \<in> set (m s) \<and> self_equal x)}" by auto
  have kuv: "kind u = kind v" using u(3) v(3) assms(3) by simp
  from Union_Set_wf [OF u(2) v(2) kuv] obtain r where
    r: "Union_Set u v = Inr (Some r, None)" "wf r" "kind r = kind u"
       "set (m r) = set (m u) \<union> set (m v)" by blast
  have "SymmetricDifference s t = Inr (Some r, None)"
    using assms(3) u(1) v(1) r(1) by (simp add: SymmetricDifference_def typematch_def)
  then show ?thesis using r u(3,4) v(4) by auto
qed



lemma IsEqual_wf:
  assumes "wf s" "wf t" "kind s = kind t"
    and "list_all self_equal (m s)" "list_all self_equal (m t)"
  shows "IsEqual s t = Inr (set (m s) = set (m t), None)"
proof -
  from Union_Set_wf [OF assms(1-3)] obtain u where
    u: "Union_Set s t = Inr (Some u, None)" "wf u" "set (m u) = set (m s) \<union> set (m t)"
    by blast
  have "list_all self_equal (m u)" using assms(4,5) u(3) by (auto simp: list_all_iff)
  then have "distinct (m u)" using u(2) by (rule wf_self_equal_distinct [rotated])
  moreover have "distinct (m s)" "distinct (m t)"
    using assms by (simp_all add: wf_self_equal_distinct)
  ultimately have ds: "length (m s) = card (set (m s))"
    and dt: "length (m t) = card (set (m t))"
    and "length (m u) = card (set (m u))"
    by (simp_all add: distinct_card)
  then have du: "length (m u) = card (set (m s) \<union> set (m t))"
    using u(3) by simp
  have "(length (m s) = length (m t) \<and> length (m s) = length (m u)) =
        (set (m s) = set (m t))"
  proof
    assume a: "length (m s) = length (m t) \<and> length (m s) = length (m u)"
    then have c1: "card (set (m s) \<union> set (m t)) = card (set (m s))"
      and c2: "card (set (m s) \<union> set (m t)) = card (set (m t))"
      using ds dt du by simp_all
    have "set (m s) = set (m s) \<union> set (m t)"
      by (rule card_subset_eq) (simp_all add: c1)
    moreover have "set (m t) = set (m s) \<union> set (m t)"
      by (rule card_subset_eq) (simp_all add: c2)
    ultimately show "set (m s) = set (m t)" by simp
  next
    assume "set (m s) = set (m t)"
    then show "length (m s) = length (m t) \<and> length (m s) = length (m u)"
      using ds dt du by simp
  qed
  then show ?thesis
    using assms(3) u(1) by (auto simp: IsEqual_def typematch_def Size_def)
qed

section \<open>The invariant is kept\<close>

lemma Add_loop_Inr_hashable: "Add_loop ks items = Inr keys \<Longrightarrow> list_all hashable items"
  by (induction items arbitrary: ks) (auto simp: map_store_def split: if_splits)

lemma Remove_loop_Inr_hashable: "Remove_loop ks items = Inr keys \<Longrightarrow> list_all hashable items"
  by (induction items arbitrary: ks) (auto simp: map_delete_def split: if_splits)

lemma Add_preserves_wf:
  assumes "wf s" "Add s items = Inr (s', e)"
  shows "wf s' \<and> kind s' = kind s"
proof (cases "kind s = Slice \<and> items \<noteq> []")
  case True
  then have "list_all hashable items"
    using assms(2) by (auto simp: Add_def split: sum.splits dest: Add_loop_Inr_hashable)
  with Add_Slice [of s items] True assms show ?thesis by auto
next
  case False
  then have "s' = s" using assms(2) by (auto simp: Add_def split: if_splits)
  then show ?thesis using assms(1) by simp
qed

lemma Remove_preserves_wf:
  assumes "wf s" "Remove s items = Inr (s', e)"
  shows "wf s' \<and> kind s' = kind s"
proof (cases "kind s = Slice \<and> items \<noteq> []")
  case True
  then have "list_all hashable items"
    using assms(2) by (auto simp: Remove_def split: sum.splits dest: Remove_loop_Inr_hashable)
  with Remove_Slice [of s items] True assms show ?thesis by auto
next
  case False
  then have "s' = s" using assms(2) by (auto simp: Remove_def split: if_splits)
  then show ?thesis using assms(1) by simp
qed

lemma Clear_preserves_wf: "wf (Clear s) \<and> kind (Clear s) = kind s"
  by (simp add: Clear_def wf_def)

lemma New_wf:
  assumes "New k items = Inr s"
  shows "wf s \<and> kind s = k"
proof -
  from assms obtain e where "Add \<lparr>m = [], kind = k\<rparr> items = Inr (s, e)"
    by (auto simp: New_def split: sum.splits)
  from Add_preserves_wf [OF wf_empty this] show ?thesis by simp
qed

lemma Add_each_preserves_wf:
  "wf u \<Longrightarrow> Add_each u xs = Inr u' \<Longrightarrow> wf u' \<and> kind u' = kind u"
proof (induction xs arbitrary: u)
  case Nil
  then show ?case by simp
next
  case (Cons x xs)
  from Cons.prems(2) obtain u1 e where
    u1: "Add u [x] = Inr (u1, e)" "Add_each u1 xs = Inr u'"
    by (auto split: sum.splits)
  from Add_preserves_wf [OF Cons.prems(1) u1(1)] Cons.IH [OF _ u1(2)]
  show ?case by simp
qed

lemma Remove_each_preserves_wf:
  "wf u \<Longrightarrow> Remove_each u xs = Inr u' \<Longrightarrow> wf u' \<and> kind u' = kind u"
proof (induction xs arbitrary: u)
  case Nil
  then show ?case by simp
next
  case (Cons x xs)
  from Cons.prems(2) obtain u1 e where
    u1: "Remove u [x] = Inr (u1, e)" "Remove_each u1 xs = Inr u'"
    by (auto split: sum.splits)
  from Remove_preserves_wf [OF Cons.prems(1) u1(1)] Cons.IH [OF _ u1(2)]
  show ?case by simp
qed

lemma Merge_preserves_wf:
  "wf s \<Longrightarrow> Merge s t = Inr (s', e) \<Longrightarrow> wf s' \<and> kind s' = kind s"
  by (auto simp: Merge_def split: option.splits sum.splits dest: Add_each_preserves_wf)

lemma Separate_preserves_wf:
  "wf s \<Longrightarrow> Separate s t = Inr (s', e) \<Longrightarrow> wf s' \<and> kind s' = kind s"
  by (auto simp: Separate_def split: option.splits sum.splits dest: Remove_each_preserves_wf)

lemma Intersection_loop_preserves_wf:
  "wf u \<Longrightarrow> Intersection_loop t u xs = Inr u' \<Longrightarrow> wf u' \<and> kind u' = kind u"
proof (induction xs arbitrary: u)
  case Nil
  then show ?case by simp
next
  case (Cons x xs)
  show ?case
  proof (cases "\<exists>e. Has t [x] = Inr (True, e)")
    case True
    with Cons.prems(2) obtain u1 e where
      u1: "Add u [x] = Inr (u1, e)" "Intersection_loop t u1 xs = Inr u'"
      by (auto split: sum.splits)
    from Add_preserves_wf [OF Cons.prems(1) u1(1)] Cons.IH [OF _ u1(2)]
    show ?thesis by simp
  next
    case False
    with Cons.prems(2) have "Intersection_loop t u xs = Inr u'"
      by (auto split: sum.splits if_splits)
    from Cons.IH [OF Cons.prems(1) this] show ?thesis .
  qed
qed

lemma Intersection_wf:
  assumes "Intersection s t = Inr (Some u, e)"
  shows "wf u \<and> kind u = kind s"
proof -
  from assms obtain u1 where
    u1: "Intersection_loop t \<lparr>m = [], kind = kind s\<rparr> (List s) = Inr u1"
        "Intersection_loop s u1 (List t) = Inr u"
    by (auto simp: Intersection_def New_empty split: option.splits sum.splits)
  from Intersection_loop_preserves_wf [OF wf_empty u1(1)]
  have "wf u1 \<and> kind u1 = kind s" by simp
  with Intersection_loop_preserves_wf [OF _ u1(2)] show ?thesis by simp
qed

text \<open>The invariant holds of exactly the sets that \<open>New\<close> returns, and a copy has the
  keys of its original.\<close>

lemma wf_is_New: "wf s = (New (kind s) (List s) = Inr s)"
proof
  assume w: "wf s"
  show "New (kind s) (List s) = Inr s"
  proof (cases "kind s = Slice")
    case True
    with w have "Add_loop [] (m s) = Inr (m s)"
      using Add_loop_distinct [of "[]" "m s"] by (simp add: wf_def)
    then show ?thesis using True by (cases "m s = []") (simp_all add: New_def Add_def List_def)
  next
    case False
    with w have "m s = []" by (simp add: wf_def)
    then show ?thesis by (simp add: New_empty List_def)
  qed
next
  assume "New (kind s) (List s) = Inr s"
  then show "wf s" using New_wf by blast
qed

lemma Copy_wf: "wf s \<Longrightarrow> Copy s = Inr s"
  using wf_is_New [of s] by (simp add: Copy_def)

lemma Add_error_unchanged: "Add s items = Inr (s', Some e) \<Longrightarrow> s' = s"
  by (auto simp: Add_def split: if_splits sum.splits)

lemma Add_own_kind_not_accepted:
  assumes "kind_of x = Some (kind s)"
  shows "Add s [x] \<noteq> Inr (s', None)"
proof (cases "kind s = Slice")
  case True
  with assms have "\<not> hashable x" by (cases x) simp_all
  then show ?thesis using True by (simp add: Add_def map_store_def)
next
  case False
  then show ?thesis by (simp add: Add_def)
qed

lemma Add_kind: "Add s items = Inr (s', e) \<Longrightarrow> kind s' = kind s"
  by (auto simp: Add_def split: if_splits sum.splits)

lemma Remove_kind: "Remove s items = Inr (s', e) \<Longrightarrow> kind s' = kind s"
  by (auto simp: Remove_def split: if_splits sum.splits)

lemma Add_loop_Inl:
  "Add_loop ks items = Inl p \<Longrightarrow> p = UnhashableKey \<and> \<not> list_all hashable items"
  by (induction items arbitrary: ks) (auto simp: map_store_def split: if_splits)

lemma Add_Inl: "Add s items = Inl p \<Longrightarrow> p = UnhashableKey \<and> \<not> list_all hashable items"
  by (auto simp: Add_def split: if_splits sum.splits dest: Add_loop_Inl)

section \<open>Changes through one pointer\<close>

lemma deref_Inr:
  assumes "deref h p = Inr s"
  shows "p < length (structs h)" and "fst (structs h ! p) < length (maps h)"
    and "s = \<lparr>m = maps h ! fst (structs h ! p), kind = snd (structs h ! p)\<rparr>"
  using assms by (auto simp: deref_def split: if_splits)

lemma store_keys_other:
  assumes "deref h p = Inr A" and "fst (structs h ! p) \<noteq> fst (structs h ! q)"
  shows "deref (store_keys h q keys) p = Inr A"
    and "structs (store_keys h q keys) = structs h"
  using assms by (auto simp: deref_def store_keys_def split: if_splits)

lemma Clear_ptr_other:
  assumes "Clear_ptr h q = Inr h'" and "deref h p = Inr A" and "p \<noteq> q"
  shows "deref h' p = Inr A \<and> fst (structs h' ! p) \<noteq> fst (structs h' ! q)"
proof -
  from assms(1) obtain s where s: "deref h q = Inr s"
    and h': "h' = h\<lparr>maps := maps h @ [[]],
                     structs := (structs h)[q := (length (maps h), kind s)]\<rparr>"
    by (auto simp: Clear_ptr_def split: sum.splits)
  note q = deref_Inr [OF s] and p = deref_Inr [OF assms(2)]
  have sp: "structs h' ! p = structs h ! p" using assms(3) by (simp add: h')
  have sq: "structs h' ! q = (length (maps h), kind s)" using q(1) by (simp add: h')
  have "deref h' p = Inr A"
    using p sp by (simp add: deref_def h' nth_append)
  moreover have "fst (structs h' ! p) \<noteq> fst (structs h' ! q)"
    using p(2) sp sq by simp
  ultimately show ?thesis by simp
qed

lemma mutate_other:
  assumes "mutate h q mu = Inr h'" and "deref h p = Inr A" and "p \<noteq> q"
    and "fst (structs h ! p) \<noteq> fst (structs h ! q)"
  shows "deref h' p = Inr A \<and> fst (structs h' ! p) \<noteq> fst (structs h' ! q)"
proof (cases mu)
  case ClearAll
  with assms(1) have "Clear_ptr h q = Inr h'" by simp
  from Clear_ptr_other [OF this assms(2,3)] show ?thesis .
next
  case (AddItems items)
  with assms(1) obtain keys where "h' = store_keys h q keys"
    by (auto simp: Add_ptr_def split: sum.splits)
  with store_keys_other [OF assms(2,4)] assms(4) show ?thesis by simp
next
  case (RemoveItems items)
  with assms(1) obtain keys where "h' = store_keys h q keys"
    by (auto simp: Remove_ptr_def split: sum.splits)
  with store_keys_other [OF assms(2,4)] assms(4) show ?thesis by simp
next
  case (MergeWith r)
  with assms(1) obtain keys where "h' = store_keys h q keys"
    by (auto simp: Merge_ptr_def split: sum.splits)
  with store_keys_other [OF assms(2,4)] assms(4) show ?thesis by simp
next
  case (SeparateFrom r)
  with assms(1) obtain keys where "h' = store_keys h q keys"
    by (auto simp: Separate_ptr_def split: sum.splits)
  with store_keys_other [OF assms(2,4)] assms(4) show ?thesis by simp
qed

lemma mutate_all_other:
  "mutate_all h q mus = Inr h' \<Longrightarrow> deref h p = Inr A \<Longrightarrow> p \<noteq> q \<Longrightarrow>
   fst (structs h ! p) \<noteq> fst (structs h ! q) \<Longrightarrow> deref h' p = Inr A"
proof (induction mus arbitrary: h)
  case Nil
  then show ?case by simp
next
  case (Cons mu mus)
  from Cons.prems(1) obtain h1 where
    h1: "mutate h q mu = Inr h1" "mutate_all h1 q mus = Inr h'"
    by (auto split: sum.splits)
  from mutate_other [OF h1(1) Cons.prems(2,3,4)]
  have "deref h1 p = Inr A" "fst (structs h1 ! p) \<noteq> fst (structs h1 ! q)" by simp_all
  from Cons.IH [OF h1(2) this(1) Cons.prems(3) this(2)] show ?case .
qed

text \<open>\<open>New\<close> through the heap: the set that \<open>New\<close> returns, in a new map, at a new
  address.\<close>

lemma New_ptr_New:
  "New_ptr h k items =
     (case New k items of
        Inl e \<Rightarrow> Inl e
      | Inr s \<Rightarrow>
          Inr (\<lparr>maps = maps h @ [m s], structs = structs h @ [(length (maps h), k)]\<rparr>,
               length (structs h)))"
proof (cases "Add \<lparr>m = [], kind = k\<rparr> items")
  case (Inl e)
  then show ?thesis by (simp add: New_ptr_def Add_ptr_def deref_def New_def)
next
  case (Inr r)
  then obtain s e where r: "Add \<lparr>m = [], kind = k\<rparr> items = Inr (s, e)" by (cases r) auto
  then show ?thesis
    by (simp add: New_ptr_def Add_ptr_def deref_def New_def store_keys_def)
qed

section \<open>The claims\<close>

text \<open>
  C1. For a set of kind \<open>K\<close> and an element \<open>x\<close> of kind \<open>K\<close>, \<open>Add(x)\<close> and
  then \<open>Has(x)\<close> is to return true. On the set \<open>New(reflect.Int)\<close> and the
  element \<open>1\<close> the code does otherwise: \<open>Add\<close> returns the type error of the
  argument slice and leaves the set empty, and \<open>Has\<close> returns false with the same error.
\<close>

theorem C1_Add_then_Has_on_Int_set:
  "New IntK [] = Inr \<lparr>m = [], kind = IntK\<rparr> \<and>
   Add \<lparr>m = [], kind = IntK\<rparr> [IntV 1] =
     Inr (\<lparr>m = [], kind = IntK\<rparr>, Some (TypeViolation Slice IntK)) \<and>
   Has \<lparr>m = [], kind = IntK\<rparr> [IntV 1] = Inr (False, Some (TypeViolation Slice IntK))"
  by (simp add: New_def Add_def Has_def)

text \<open>
  C2. On a set whose kind is not \<open>Slice\<close>, every call of \<open>Add\<close>, \<open>Remove\<close> and
  \<open>Has\<close> with at least one argument returns an error, the one \<open>typecheck\<close> builds
  for the argument slice taken as a single value of kind \<open>Slice\<close>; \<open>Add\<close> and
  \<open>Remove\<close> return the set as it was and \<open>Has\<close> returns false.
\<close>

theorem C2_not_Slice_rejects_every_call:
  assumes "kind s \<noteq> Slice" and "items \<noteq> []"
  shows "typecheck s [SliceV items] = Inr (Some (TypeViolation Slice (kind s))) \<and>
         Add s items = Inr (s, Some (TypeViolation Slice (kind s))) \<and>
         Remove s items = Inr (s, Some (TypeViolation Slice (kind s))) \<and>
         Has s items = Inr (False, Some (TypeViolation Slice (kind s)))"
  using assms by (simp add: Add_other Remove_other Has_other)

theorem C2_witness:
  "kind \<lparr>m = [], kind = String\<rparr> \<noteq> Slice \<and> [StringV ''a''] \<noteq> [] \<and>
   Add \<lparr>m = [], kind = String\<rparr> [StringV ''a''] =
     Inr (\<lparr>m = [], kind = String\<rparr>, Some (TypeViolation Slice String)) \<and>
   Remove \<lparr>m = [], kind = String\<rparr> [StringV ''a''] =
     Inr (\<lparr>m = [], kind = String\<rparr>, Some (TypeViolation Slice String)) \<and>
   Has \<lparr>m = [], kind = String\<rparr> [StringV ''a''] =
     Inr (False, Some (TypeViolation Slice String))"
  using C2_not_Slice_rejects_every_call [of "\<lparr>m = [], kind = String\<rparr>" "[StringV ''a'']"]
  by simp

text \<open>
  C3. \<open>Has\<close> is to fail when an item's type is not the set's kind. On the set
  \<open>New(reflect.Slice, 1)\<close> the items \<open>1\<close> and \<open>"a"\<close>, of kinds \<open>Int\<close> and
  \<open>String\<close>, are looked up without an error: the first is reported present, the second
  absent.
\<close>

theorem C3_Has_on_Slice_set_takes_any_kind:
  "New Slice [IntV 1] = Inr \<lparr>m = [IntV 1], kind = Slice\<rparr> \<and>
   kind_of (IntV 1) = Some IntK \<and>
   Has \<lparr>m = [IntV 1], kind = Slice\<rparr> [IntV 1] = Inr (True, None) \<and>
   Has \<lparr>m = [IntV 1], kind = Slice\<rparr> [StringV ''a''] = Inr (False, None)"
  by (simp add: New_def Add_def Has_def map_store_def map_lookup_def same_key_def)

text \<open>
  C4. \<open>Add\<close> is to check the type of every item and to insert nothing when one of
  them fails the check. On the set \<open>New(reflect.Slice)\<close> the call \<open>Add(1, "a")\<close>
  returns no error and inserts both items, neither of which is of kind \<open>Slice\<close>.
  (When \<open>Add\<close> does return an error the set is unchanged: \<open>Add_error_unchanged\<close>.)
\<close>

theorem C4_Add_on_Slice_set_inserts_any_kind:
  "New Slice [] = Inr \<lparr>m = [], kind = Slice\<rparr> \<and>
   kind_of (IntV 1) = Some IntK \<and> kind_of (StringV ''a'') = Some String \<and>
   Add \<lparr>m = [], kind = Slice\<rparr> [IntV 1, StringV ''a''] =
     Inr (\<lparr>m = [IntV 1, StringV ''a''], kind = Slice\<rparr>, None)"
  by (simp add: New_def Add_def map_store_def same_key_def)

text \<open>
  C5. On two sets of different kinds, \<open>Union\<close>, \<open>Intersection\<close>, \<open>Difference\<close>,
  \<open>SymmetricDifference\<close>, \<open>Merge\<close>, \<open>Separate\<close>, \<open>IsEqual\<close> and \<open>IsSubset\<close>
  return the error of \<open>typematch\<close>, with a nil set or false. \<open>Merge\<close> and \<open>Separate\<close>
  return the receiver as it was; no operation writes to the other operand, and the six
  others write to neither (they call \<open>List\<close> and \<open>Has\<close> on the operands and \<open>Add\<close>
  on a new set only), so the model gives them no state to return.
\<close>

theorem C5_kind_mismatch:
  assumes "kind s \<noteq> kind t"
  shows "Union_Set s t = Inr (None, Some (KindMismatch (kind s) (kind t))) \<and>
         Intersection s t = Inr (None, Some (KindMismatch (kind s) (kind t))) \<and>
         Difference s t = Inr (None, Some (KindMismatch (kind s) (kind t))) \<and>
         SymmetricDifference s t = Inr (None, Some (KindMismatch (kind s) (kind t))) \<and>
         Merge s t = Inr (s, Some (KindMismatch (kind s) (kind t))) \<and>
         Separate s t = Inr (s, Some (KindMismatch (kind s) (kind t))) \<and>
         IsEqual s t = Inr (False, Some (KindMismatch (kind s) (kind t))) \<and>
         IsSubset s t = Inr (False, Some (KindMismatch (kind s) (kind t)))"
  using assms
  by (simp add: typematch_def Union_Set_def Intersection_def Difference_def
      SymmetricDifference_def Merge_def Separate_def IsEqual_def IsSubset_def)

theorem C5_witness:
  "kind \<lparr>m = [], kind = String\<rparr> \<noteq> kind \<lparr>m = [StringV ''a''], kind = Slice\<rparr> \<and>
   Union_Set \<lparr>m = [], kind = String\<rparr> \<lparr>m = [StringV ''a''], kind = Slice\<rparr> =
     Inr (None, Some (KindMismatch String Slice)) \<and>
   Merge \<lparr>m = [], kind = String\<rparr> \<lparr>m = [StringV ''a''], kind = Slice\<rparr> =
     Inr (\<lparr>m = [], kind = String\<rparr>, Some (KindMismatch String Slice)) \<and>
   IsSubset \<lparr>m = [], kind = String\<rparr> \<lparr>m = [StringV ''a''], kind = Slice\<rparr> =
     Inr (False, Some (KindMismatch String Slice))"
  using C5_kind_mismatch [of "\<lparr>m = [], kind = String\<rparr>" "\<lparr>m = [StringV ''a''], kind = Slice\<rparr>"]
  by simp

text \<open>
  C6, as stated, fails: the set \<open>A = New(reflect.Slice, math.NaN())\<close> has one element,
  its copy has one element, and \<open>IsEqual\<close> of the copy and \<open>A\<close> is false: the union that
  \<open>IsEqual\<close> builds holds the NaN twice, since a NaN is never the key that is already in
  the map.
\<close>

theorem C6_counterexample:
  "New Slice [Float64V NaN] = Inr \<lparr>m = [Float64V NaN], kind = Slice\<rparr> \<and>
   Copy \<lparr>m = [Float64V NaN], kind = Slice\<rparr> = Inr \<lparr>m = [Float64V NaN], kind = Slice\<rparr> \<and>
   Union_Set \<lparr>m = [Float64V NaN], kind = Slice\<rparr> \<lparr>m = [Float64V NaN], kind = Slice\<rparr> =
     Inr (Some \<lparr>m = [Float64V NaN, Float64V NaN], kind = Slice\<rparr>, None) \<and>
   IsEqual \<lparr>m = [Float64V NaN], kind = Slice\<rparr> \<lparr>m = [Float64V NaN], kind = Slice\<rparr> =
     Inr (False, None)"
  by (simp add: New_def Copy_def List_def Add_def Union_Set_def IsEqual_def typematch_def
      Size_def map_store_def same_key_def)

text \<open>
  C6, amended. For a set \<open>A\<close> that satisfies the invariant (behind the pointer \<open>p\<close>),
  \<open>Copy\<close> returns a new pointer \<open>q\<close> to a structure with a map of its own and leaves
  \<open>A\<close> as it was; the copy has the kind, the elements and the size of \<open>A\<close>; whatever
  sequence of \<open>Add\<close>, \<open>Remove\<close>, \<open>Clear\<close>, \<open>Merge\<close> and \<open>Separate\<close> is then run on
  the copy, \<open>A\<close> is still what it was; and when every element of \<open>A\<close> is equal to itself
  (none is a NaN or holds one), \<open>IsEqual\<close> reports the copy and \<open>A\<close> equal, with either
  as receiver.
\<close>

theorem C6_Copy_equal_and_independent:
  assumes "deref h p = Inr A" and "wf A"
  shows "\<exists>h' q c. Copy_ptr h p = Inr (h', q) \<and> q \<noteq> p \<and>
           fst (structs h' ! q) \<noteq> fst (structs h' ! p) \<and>
           deref h' p = Inr A \<and> deref h' q = Inr c \<and>
           kind c = kind A \<and> set (List c) = set (List A) \<and> Size c = Size A \<and>
           (list_all self_equal (List A) \<longrightarrow>
              IsEqual c A = Inr (True, None) \<and> IsEqual A c = Inr (True, None)) \<and>
           (\<forall>mus h''. mutate_all h' q mus = Inr h'' \<longrightarrow> deref h'' p = Inr A)"
proof -
  note p = deref_Inr [OF assms(1)]
  let ?h = "\<lparr>maps = maps h @ [m A], structs = structs h @ [(length (maps h), kind A)]\<rparr>"
  let ?q = "length (structs h)"
  have "New (kind A) (List A) = Inr A" using assms(2) wf_is_New by simp
  then have cp: "Copy_ptr h p = Inr (?h, ?q)"
    using assms(1) by (simp add: Copy_ptr_def New_ptr_New)
  have qp: "?q \<noteq> p" using p(1) by simp
  have mq: "fst (structs ?h ! ?q) = length (maps h)" by simp
  have mp: "fst (structs ?h ! p) = fst (structs h ! p)" using p(1) by (simp add: nth_append)
  have sep: "fst (structs ?h ! p) \<noteq> fst (structs ?h ! ?q)" using p(2) mp mq by simp
  have dp: "deref ?h p = Inr A" using p by (simp add: deref_def nth_append)
  have dq: "deref ?h ?q = Inr A" by (simp add: deref_def)
  have eq: "list_all self_equal (List A) \<longrightarrow> IsEqual A A = Inr (True, None)"
    using IsEqual_wf [OF assms(2) assms(2)] by (simp add: List_def)
  have ind: "\<forall>mus h''. mutate_all ?h ?q mus = Inr h'' \<longrightarrow> deref h'' p = Inr A"
    using mutate_all_other [OF _ dp _ sep] qp by blast
  from cp qp sep dp dq eq ind show ?thesis
    by (intro exI [of _ ?h] exI [of _ ?q] exI [of _ A]) (simp add: eq_commute)
qed

theorem C6_witness:
  "deref \<lparr>maps = [[IntV 1, IntV 2]], structs = [(0, Slice)]\<rparr> 0 =
     Inr \<lparr>m = [IntV 1, IntV 2], kind = Slice\<rparr> \<and>
   wf \<lparr>m = [IntV 1, IntV 2], kind = Slice\<rparr> \<and>
   list_all self_equal (List \<lparr>m = [IntV 1, IntV 2], kind = Slice\<rparr>) \<and>
   Copy_ptr \<lparr>maps = [[IntV 1, IntV 2]], structs = [(0, Slice)]\<rparr> 0 =
     Inr (\<lparr>maps = [[IntV 1, IntV 2], [IntV 1, IntV 2]], structs = [(0, Slice), (1, Slice)]\<rparr>, 1) \<and>
   mutate_all \<lparr>maps = [[IntV 1, IntV 2], [IntV 1, IntV 2]], structs = [(0, Slice), (1, Slice)]\<rparr> 1
       [AddItems [IntV 3], RemoveItems [IntV 1], MergeWith 0, ClearAll, AddItems [IntV 4]] =
     Inr \<lparr>maps = [[IntV 1, IntV 2], [IntV 2, IntV 3, IntV 1], [IntV 4]],
          structs = [(0, Slice), (2, Slice)]\<rparr> \<and>
   (\<exists>h' q c. Copy_ptr \<lparr>maps = [[IntV 1, IntV 2]], structs = [(0, Slice)]\<rparr> 0 = Inr (h', q) \<and>
      q \<noteq> 0 \<and> deref h' q = Inr c \<and>
      IsEqual c \<lparr>m = [IntV 1, IntV 2], kind = Slice\<rparr> = Inr (True, None) \<and>
      IsEqual \<lparr>m = [IntV 1, IntV 2], kind = Slice\<rparr> c = Inr (True, None) \<and>
      (\<forall>mus h''. mutate_all h' q mus = Inr h'' \<longrightarrow>
         deref h'' 0 = Inr \<lparr>m = [IntV 1, IntV 2], kind = Slice\<rparr>))"
proof -
  let ?a = "\<lparr>m = [IntV 1, IntV 2], kind = Slice\<rparr>"
  let ?h = "\<lparr>maps = [[IntV 1, IntV 2]], structs = [(0, Slice)]\<rparr>"
  let ?h1 = "\<lparr>maps = [[IntV 1, IntV 2], [IntV 1, IntV 2]], structs = [(0, Slice), (1, Slice)]\<rparr>"
  have d: "deref ?h 0 = Inr ?a" by (simp add: deref_def)
  have w: "wf ?a" by (simp add: wf_def)
  have n: "list_all self_equal (List ?a)" by (simp add: List_def)
  have cp: "Copy_ptr ?h 0 = Inr (?h1, 1)"
    by (simp add: Copy_ptr_def deref_def New_ptr_def Add_ptr_def store_keys_def List_def
        Add_def map_store_def same_key_def)
  have mu: "mutate_all ?h1 1
      [AddItems [IntV 3], RemoveItems [IntV 1], MergeWith 0, ClearAll, AddItems [IntV 4]] =
      Inr \<lparr>maps = [[IntV 1, IntV 2], [IntV 2, IntV 3, IntV 1], [IntV 4]],
           structs = [(0, Slice), (2, Slice)]\<rparr>"
    by (simp add: Add_ptr_def Remove_ptr_def Merge_ptr_def Clear_ptr_def deref_def
        store_keys_def Add_def Remove_def Merge_def typematch_def List_def
        map_store_def map_delete_def same_key_def)
  from C6_Copy_equal_and_independent [OF d w] n obtain h' q c where
    "Copy_ptr ?h 0 = Inr (h', q)" "q \<noteq> 0" "deref h' q = Inr c"
    "IsEqual c ?a = Inr (True, None)" "IsEqual ?a c = Inr (True, None)"
    "\<forall>mus h''. mutate_all h' q mus = Inr h'' \<longrightarrow> deref h'' 0 = Inr ?a"
    by blast
  then have "\<exists>h' q c. Copy_ptr ?h 0 = Inr (h', q) \<and> q \<noteq> 0 \<and> deref h' q = Inr c \<and>
      IsEqual c ?a = Inr (True, None) \<and> IsEqual ?a c = Inr (True, None) \<and>
      (\<forall>mus h''. mutate_all h' q mus = Inr h'' \<longrightarrow> deref h'' 0 = Inr ?a)"
    by blast
  with d w n cp mu show ?thesis by blast
qed

text \<open>
  C7, as stated, fails: for \<open>A = New(reflect.Slice, math.NaN())\<close>,
  \<open>A.SymmetricDifference(A)\<close> returns a set of two elements, though no element is in
  exactly one of the two operands: \<open>Has\<close> never finds the NaN, so each difference keeps it.
\<close>

theorem C7_counterexample:
  "New Slice [Float64V NaN] = Inr \<lparr>m = [Float64V NaN], kind = Slice\<rparr> \<and>
   SymmetricDifference \<lparr>m = [Float64V NaN], kind = Slice\<rparr> \<lparr>m = [Float64V NaN], kind = Slice\<rparr> =
     Inr (Some \<lparr>m = [Float64V NaN, Float64V NaN], kind = Slice\<rparr>, None) \<and>
   set (List \<lparr>m = [Float64V NaN, Float64V NaN], kind = Slice\<rparr>) \<noteq>
     (set (List \<lparr>m = [Float64V NaN], kind = Slice\<rparr>) -
      set (List \<lparr>m = [Float64V NaN], kind = Slice\<rparr>)) \<union>
     (set (List \<lparr>m = [Float64V NaN], kind = Slice\<rparr>) -
      set (List \<lparr>m = [Float64V NaN], kind = Slice\<rparr>))"
  by (simp add: New_def Add_def SymmetricDifference_def Difference_def Union_Set_def
      typematch_def List_def Has_def map_store_def map_lookup_def same_key_def)

text \<open>
  C7, amended. For two sets of one kind that satisfy the invariant,
  \<open>SymmetricDifference\<close> returns a set with the elements, and of the size, of the union of
  the two differences, as \<open>SymmetricDifference_spec\<close> words it; when every element of
  both sets is equal to itself (none is a NaN or holds one), these are the elements that
  are in exactly one of the operands.
\<close>

theorem C7_SymmetricDifference_refines_spec:
  assumes "wf s" and "wf t" and "kind s = kind t"
  shows "\<exists>r w. SymmetricDifference s t = Inr (Some r, None) \<and>
           SymmetricDifference_spec s t = Inr (Some w, None) \<and>
           set (List r) = set (List w) \<and> Size r = Size w \<and>
           (list_all self_equal (List s) \<and> list_all self_equal (List t) \<longrightarrow>
              set (List r) = (set (List s) - set (List t)) \<union> (set (List t) - set (List s)))"
proof -
  from Difference_wf [OF assms] obtain u where
    u: "Difference s t = Inr (Some u, None)" "wf u" "kind u = kind s" by blast
  from Difference_wf [OF assms(2,1)] assms(3) obtain v where
    v: "Difference t s = Inr (Some v, None)" "wf v" "kind v = kind t" by auto
  have kuv: "kind u = kind v" using u(3) v(3) assms(3) by simp
  from Union_Set_wf [OF u(2) v(2) kuv] obtain w where
    w: "Union_Set u v = Inr (Some w, None)" by blast
  have sd: "SymmetricDifference s t = Inr (Some w, None)"
    using assms(3) u(1) v(1) w by (simp add: SymmetricDifference_def typematch_def)
  have sp: "SymmetricDifference_spec s t = Inr (Some w, None)"
    using u(1) v(1) w by (simp add: SymmetricDifference_spec_def)
  from SymmetricDifference_wf [OF assms] sd have
    r: "set (m w) = {x \<in> set (m s). \<not> (x \<in> set (m t) \<and> self_equal x)} \<union>
                    {x \<in> set (m t). \<not> (x \<in> set (m s) \<and> self_equal x)}"
    by simp
  have "list_all self_equal (m s) \<and> list_all self_equal (m t) \<longrightarrow>
      set (m w) = (set (m s) - set (m t)) \<union> (set (m t) - set (m s))"
    unfolding r by (auto simp: list_all_iff)
  with sd sp show ?thesis by (simp add: List_def)
qed

theorem C7_witness:
  "wf \<lparr>m = [IntV 1, IntV 2], kind = Slice\<rparr> \<and> wf \<lparr>m = [IntV 2, IntV 3], kind = Slice\<rparr> \<and>
   kind \<lparr>m = [IntV 1, IntV 2], kind = Slice\<rparr> = kind \<lparr>m = [IntV 2, IntV 3], kind = Slice\<rparr> \<and>
   list_all self_equal (List \<lparr>m = [IntV 1, IntV 2], kind = Slice\<rparr>) \<and>
   list_all self_equal (List \<lparr>m = [IntV 2, IntV 3], kind = Slice\<rparr>) \<and>
   SymmetricDifference \<lparr>m = [IntV 1, IntV 2], kind = Slice\<rparr> \<lparr>m = [IntV 2, IntV 3], kind = Slice\<rparr> =
     Inr (Some \<lparr>m = [IntV 3, IntV 1], kind = Slice\<rparr>, None) \<and>
   (\<exists>r w. SymmetricDifference \<lparr>m = [IntV 1, IntV 2], kind = Slice\<rparr>
             \<lparr>m = [IntV 2, IntV 3], kind = Slice\<rparr> = Inr (Some r, None) \<and>
          SymmetricDifference_spec \<lparr>m = [IntV 1, IntV 2], kind = Slice\<rparr>
             \<lparr>m = [IntV 2, IntV 3], kind = Slice\<rparr> = Inr (Some w, None) \<and>
          set (List r) = set (List w) \<and> Size r = Size w \<and> set (List r) = {IntV 1, IntV 3})"
proof -
  let ?a = "\<lparr>m = [IntV 1, IntV 2], kind = Slice\<rparr>" and ?b = "\<lparr>m = [IntV 2, IntV 3], kind = Slice\<rparr>"
  have wa: "wf ?a" and wb: "wf ?b" and k: "kind ?a = kind ?b" by (simp_all add: wf_def)
  have na: "list_all self_equal (List ?a)" and nb: "list_all self_equal (List ?b)"
    by (simp_all add: List_def)
  have d1: "Difference ?a ?b = Inr (Some \<lparr>m = [IntV 1], kind = Slice\<rparr>, None)"
    by (simp add: Difference_def typematch_def New_def List_def Add_def Has_def
        map_store_def map_lookup_def same_key_def)
  have d2: "Difference ?b ?a = Inr (Some \<lparr>m = [IntV 3], kind = Slice\<rparr>, None)"
    by (simp add: Difference_def typematch_def New_def List_def Add_def Has_def
        map_store_def map_lookup_def same_key_def)
  have un: "Union_Set \<lparr>m = [IntV 1], kind = Slice\<rparr> \<lparr>m = [IntV 3], kind = Slice\<rparr> =
      Inr (Some \<lparr>m = [IntV 3, IntV 1], kind = Slice\<rparr>, None)"
    by (simp add: Union_Set_def typematch_def New_def List_def Add_def map_store_def
        same_key_def)
  have sd: "SymmetricDifference ?a ?b = Inr (Some \<lparr>m = [IntV 3, IntV 1], kind = Slice\<rparr>, None)"
    by (simp add: SymmetricDifference_def typematch_def d1 d2 un)
  from C7_SymmetricDifference_refines_spec [OF wa wb k] na nb obtain r w where
    "SymmetricDifference ?a ?b = Inr (Some r, None)"
    "SymmetricDifference_spec ?a ?b = Inr (Some w, None)"
    "set (List r) = set (List w)" "Size r = Size w"
    "set (List r) = (set (List ?a) - set (List ?b)) \<union> (set (List ?b) - set (List ?a))"
    by blast
  moreover have "(set (List ?a) - set (List ?b)) \<union> (set (List ?b) - set (List ?a)) =
      {IntV 1, IntV 3}"
    by (auto simp: List_def)
  ultimately have "\<exists>r w. SymmetricDifference ?a ?b = Inr (Some r, None) \<and>
      SymmetricDifference_spec ?a ?b = Inr (Some w, None) \<and>
      set (List r) = set (List w) \<and> Size r = Size w \<and> set (List r) = {IntV 1, IntV 3}"
    by auto
  with wa wb k na nb sd show ?thesis by blast
qed




text \<open>
  C9, as stated, fails: \<open>New(reflect.Slice, []int{1})\<close> does not return. The check of
  the argument slice passes, and the store of the slice \<open>[]int{1}\<close> as a map key panics.
\<close>

theorem C9_counterexample:
  "kind_of (SliceV [IntV 1]) = Some Slice \<and> New Slice [SliceV [IntV 1]] = Inl UnhashableKey"
  by (simp add: New_def Add_def map_store_def)

text \<open>
  C9, amended. \<open>New\<close> has no error result. For every kind and every list of initial
  items, also items whose type is not the kind, it returns a set of the given kind,
  unless an item cannot be hashed: then it may panic instead, and it panics in no other
  case. The error of \<open>Add\<close> is dropped: when \<open>Add\<close> returns one, the rejected items are
  silently absent from the set that \<open>New\<close> returns.
\<close>

theorem C9_New_returns_or_panics:
  "(\<exists>s e. Add \<lparr>m = [], kind = k\<rparr> items = Inr (s, e) \<and> New k items = Inr s \<and> kind s = k \<and>
           (e \<noteq> None \<longrightarrow> List s = [])) \<or>
   (New k items = Inl UnhashableKey \<and> \<not> list_all hashable items)"
proof (cases "Add \<lparr>m = [], kind = k\<rparr> items")
  case (Inl p)
  from Add_Inl [OF this] Inl show ?thesis by (simp add: New_def)
next
  case (Inr r)
  then obtain s e where r: "Add \<lparr>m = [], kind = k\<rparr> items = Inr (s, e)" by (cases r) auto
  have "New k items = Inr s" using r by (simp add: New_def)
  moreover have "kind s = k" using Add_kind [OF r] by simp
  moreover have "e \<noteq> None \<longrightarrow> List s = []"
    using Add_error_unchanged [of "\<lparr>m = [], kind = k\<rparr>" items s] r by (auto simp: List_def)
  ultimately show ?thesis using r by blast
qed

theorem C9_witness:
  "list_all hashable [IntV 1, IntV 2] \<and>
   Add \<lparr>m = [], kind = String\<rparr> [IntV 1, IntV 2] =
     Inr (\<lparr>m = [], kind = String\<rparr>, Some (TypeViolation Slice String)) \<and>
   (\<exists>s e. Add \<lparr>m = [], kind = String\<rparr> [IntV 1, IntV 2] = Inr (s, e) \<and>
          New String [IntV 1, IntV 2] = Inr s \<and> kind s = String \<and> e \<noteq> None \<and> List s = [])"
proof -
  have h: "list_all hashable [IntV 1, IntV 2]" by simp
  have a: "Add \<lparr>m = [], kind = String\<rparr> [IntV 1, IntV 2] =
      Inr (\<lparr>m = [], kind = String\<rparr>, Some (TypeViolation Slice String))"
    by (simp add: Add_def)
  from C9_New_returns_or_panics [of String "[IntV 1, IntV 2]"] h obtain s e where
    se: "Add \<lparr>m = [], kind = String\<rparr> [IntV 1, IntV 2] = Inr (s, e)"
        "New String [IntV 1, IntV 2] = Inr s" "kind s = String" "e \<noteq> None \<longrightarrow> List s = []"
    by blast
  from se(1) a have "e \<noteq> None" by auto
  with se show ?thesis using h a by blast
qed

text \<open>
  C10. An element whose kind is the kind of the set is to pass the type check. On the
  set \<open>New(reflect.Struct)\<close> and the element \<open>Point{1, 2}\<close>, of kind \<open>Struct\<close>, the code
  does otherwise: \<open>Add\<close> hands \<open>typecheck\<close> the argument slice, of kind \<open>Slice\<close>, and
  returns its error; the element is not inserted, and \<open>Has\<close> fails in the same way. (Two
  sets of one kind do pass \<open>typematch\<close>. For no kind does \<open>Add\<close> accept an element of the
  set's own kind: \<open>Add_own_kind_not_accepted\<close>.)
\<close>

theorem C10_element_of_own_kind_rejected:
  "kind_of (StructV ''Point'' [IntV 1, IntV 2]) = Some Struct \<and>
   New Struct [] = Inr \<lparr>m = [], kind = Struct\<rparr> \<and>
   typematch \<lparr>m = [], kind = Struct\<rparr> \<lparr>m = [], kind = Struct\<rparr> = None \<and>
   Add \<lparr>m = [], kind = Struct\<rparr> [StructV ''Point'' [IntV 1, IntV 2]] =
     Inr (\<lparr>m = [], kind = Struct\<rparr>, Some (TypeViolation Slice Struct)) \<and>
   Has \<lparr>m = [], kind = Struct\<rparr> [StructV ''Point'' [IntV 1, IntV 2]] =
     Inr (False, Some (TypeViolation Slice Struct))"
  by (simp add: New_def Add_def Has_def typematch_def)

end
